theory Spec2Isabelle
  imports Main "HOL-Library.Word"
begin

unbundle bit_operations_syntax

section \<open>The cached register state of DNBArchMachARM\<close>

text \<open>
  The struct \<open>DNBArchMachARM::State\<close> of DNBArchImpl.h keeps, next to the register
  context and the debug register block, four arrays of two \<open>kern_return_t\<close> each:
  the last read error and the last write error of the register sets GPR, VFP, EXC and
  DBG. Its member functions \<open>GetError\<close>, \<open>SetError\<close>, \<open>RegsAreValid\<close> and
  \<open>InvalidateRegisterSetState\<close> and its constructor are defined in the header and are
  embedded here as they are written.
\<close>

subsection \<open>Machine types and constants\<close>

text \<open>
  \<open>kern_return_t\<close> is a 32-bit \<open>int\<close>, \<open>err_idx\<close> a \<open>uint32_t\<close> and the register
  set is passed as an \<open>int\<close>. All three are 32-bit words; \<open>-1\<close> is the word of all
  ones and \<open>|\<close> is the bitwise \<open>OR\<close>.
\<close>

type_synonym kern_return_t = "32 word"
type_synonym uint32_t = "32 word"
type_synonym int32 = "32 word"

text \<open>
  Modelled from the spec: the macro \<open>KERN_SUCCESS\<close> is declared in the Mach kernel
  headers, outside the repository. The spec calls it the success code and says that a
  single failing set makes the bitwise OR of the four errors a failure; that holds for
  the code 0 only, which is the value Mach gives it.
\<close>

definition KERN_SUCCESS :: kern_return_t where
  "KERN_SUCCESS = 0"

text \<open>The anonymous enum \<open>{ Read = 0, Write = 1, kNumErrors = 2 }\<close>.\<close>

definition Read :: uint32_t where
  "Read = 0"

definition Write :: uint32_t where
  "Write = 1"

definition kNumErrors :: uint32_t where
  "kNumErrors = 2"

text \<open>
  The enum \<open>RegisterSetTag\<close> takes the values of its enumerators from the macros
  \<open>REGISTER_SET_ALL\<close>, \<open>ARM_THREAD_STATE\<close>, \<open>ARM_VFP_STATE\<close>,
  \<open>ARM_EXCEPTION_STATE\<close> and \<open>ARM_DEBUG_STATE\<close>, which are declared outside the
  repository. The five values are therefore a parameter of the model. They are the
  labels of one \<open>switch\<close>, so a program that compiles has five different values:
  \<open>tags_distinct\<close>.
\<close>

record RegisterSetTag =
  e_regSetALL :: int32
  e_regSetGPR :: int32
  e_regSetVFP :: int32
  e_regSetEXC :: int32
  e_regSetDBG :: int32

definition tags_distinct :: "RegisterSetTag \<Rightarrow> bool" where
  "tags_distinct t =
     distinct [e_regSetALL t, e_regSetGPR t, e_regSetVFP t, e_regSetEXC t, e_regSetDBG t]"

subsection \<open>The struct\<close>

text \<open>
  The types of the register context (\<open>Context\<close>: GPR, VFP and EXC) and of the debug
  block (\<open>DBG\<close>) are Mach structures; the functions below never look inside them, so
  they are type parameters. Each error array is a list; \<open>State_ok\<close> says that it has
  the two elements of its C++ declaration.
\<close>

record ('c, 'd) State =
  "context" :: 'c
  dbg :: 'd
  gpr_errs :: "kern_return_t list"
  vfp_errs :: "kern_return_t list"
  exc_errs :: "kern_return_t list"
  dbg_errs :: "kern_return_t list"

definition State_ok :: "('c, 'd) State \<Rightarrow> bool" where
  "State_ok s =
     (length (gpr_errs s) = 2 \<and> length (vfp_errs s) = 2 \<and>
      length (exc_errs s) = 2 \<and> length (dbg_errs s) = 2)"

subsection \<open>The constructor\<close>

text \<open>
  The constructor runs \<open>for (i=0; i<kNumErrors; i++)\<close> over the four arrays and stores
  \<open>-1\<close> in each. It starts from the raw storage of the object, whose content is
  indeterminate: the argument \<open>s\<close> of \<open>State_ctor\<close>.
\<close>

definition State_ctor_body :: "uint32_t \<Rightarrow> ('c, 'd) State \<Rightarrow> ('c, 'd) State" where
  "State_ctor_body i s =
     s\<lparr>gpr_errs := (gpr_errs s)[unat i := - 1],
       vfp_errs := (vfp_errs s)[unat i := - 1],
       exc_errs := (exc_errs s)[unat i := - 1],
       dbg_errs := (dbg_errs s)[unat i := - 1]\<rparr>"

function State_ctor_loop :: "uint32_t \<Rightarrow> ('c, 'd) State \<Rightarrow> ('c, 'd) State" where
  "State_ctor_loop i s =
     (if i < kNumErrors then State_ctor_loop (i + 1) (State_ctor_body i s) else s)"
  by pat_completeness auto
termination
  by (relation "measure (\<lambda>(i, s). unat kNumErrors - unat i)")
     (auto simp: kNumErrors_def unat_word_ariths word_less_nat_alt)

definition State_ctor :: "('c, 'd) State \<Rightarrow> ('c, 'd) State" where
  "State_ctor s = State_ctor_loop 0 s"

subsection \<open>GetError, SetError, RegsAreValid\<close>

text \<open>
  \<open>GetError\<close>: inside the range check, the \<open>switch\<close> on the set; every other path
  falls through to \<open>return -1\<close>.
\<close>

definition GetError ::
  "RegisterSetTag \<Rightarrow> ('c, 'd) State \<Rightarrow> int32 \<Rightarrow> uint32_t \<Rightarrow> kern_return_t" where
  "GetError t s set_tag err_idx =
     (if err_idx < kNumErrors then
        (if set_tag = e_regSetALL t then
           gpr_errs s ! unat err_idx OR vfp_errs s ! unat err_idx OR
           exc_errs s ! unat err_idx OR dbg_errs s ! unat err_idx
         else if set_tag = e_regSetGPR t then gpr_errs s ! unat err_idx
         else if set_tag = e_regSetVFP t then vfp_errs s ! unat err_idx
         else if set_tag = e_regSetEXC t then exc_errs s ! unat err_idx
         else if set_tag = e_regSetDBG t then dbg_errs s ! unat err_idx
         else - 1)
      else - 1)"

text \<open>
  \<open>SetError\<close> returns its \<open>bool\<close> together with the state after the assignments.
\<close>

definition SetError ::
  "RegisterSetTag \<Rightarrow> ('c, 'd) State \<Rightarrow> int32 \<Rightarrow> uint32_t \<Rightarrow> kern_return_t \<Rightarrow>
     bool \<times> ('c, 'd) State" where
  "SetError t s set_tag err_idx err =
     (if err_idx < kNumErrors then
        (if set_tag = e_regSetALL t then
           (True, s\<lparr>gpr_errs := (gpr_errs s)[unat err_idx := err],
                     vfp_errs := (vfp_errs s)[unat err_idx := err],
                     dbg_errs := (dbg_errs s)[unat err_idx := err],
                     exc_errs := (exc_errs s)[unat err_idx := err]\<rparr>)
         else if set_tag = e_regSetGPR t then
           (True, s\<lparr>gpr_errs := (gpr_errs s)[unat err_idx := err]\<rparr>)
         else if set_tag = e_regSetVFP t then
           (True, s\<lparr>vfp_errs := (vfp_errs s)[unat err_idx := err]\<rparr>)
         else if set_tag = e_regSetEXC t then
           (True, s\<lparr>exc_errs := (exc_errs s)[unat err_idx := err]\<rparr>)
         else if set_tag = e_regSetDBG t then
           (True, s\<lparr>dbg_errs := (dbg_errs s)[unat err_idx := err]\<rparr>)
         else (False, s))
      else (False, s))"

definition InvalidateRegisterSetState ::
  "RegisterSetTag \<Rightarrow> ('c, 'd) State \<Rightarrow> int32 \<Rightarrow> ('c, 'd) State" where
  "InvalidateRegisterSetState t s set_tag = snd (SetError t s set_tag Read (- 1))"

definition RegsAreValid :: "RegisterSetTag \<Rightarrow> ('c, 'd) State \<Rightarrow> int32 \<Rightarrow> bool" where
  "RegsAreValid t s set_tag = (GetError t s set_tag Read = KERN_SUCCESS)"

section \<open>The condition check of the step engine\<close>

text \<open>
  Modelled from the spec: the body of \<open>DNBArchMachARM::ConditionPassed\<close> is in
  DNBArchImpl.cpp, which is not among the source files; the header declares
  \<open>bool ConditionPassed(uint8_t condition, uint32_t cpsr)\<close>. The spec says that it
  evaluates the 15 defined condition codes (EQ, NE, CS, CC, MI, PL, VS, VC, HI, LS, GE,
  LT, GT, LE, AL) against the N/Z/C/V flags exactly per the architecture's condition
  table. The architecture numbers the codes 0 to 14 in this order and keeps N, Z, C and
  V in bits 31, 30, 29 and 28 of the CPSR. The spec says nothing about a \<open>condition\<close>
  outside the 15 codes; the result there is the parameter \<open>other\<close>.
\<close>

type_synonym uint8_t = "8 word"

definition bit_of :: "uint32_t \<Rightarrow> nat \<Rightarrow> uint32_t" where
  "bit_of w n = drop_bit n w AND 1"

definition ConditionPassed :: "bool \<Rightarrow> uint8_t \<Rightarrow> uint32_t \<Rightarrow> bool" where
  "ConditionPassed other condition cpsr =
     (let cpsr_n = bit_of cpsr 31; cpsr_z = bit_of cpsr 30;
          cpsr_c = bit_of cpsr 29; cpsr_v = bit_of cpsr 28
      in if condition = 0 then cpsr_z = 1
         else if condition = 1 then cpsr_z = 0
         else if condition = 2 then cpsr_c = 1
         else if condition = 3 then cpsr_c = 0
         else if condition = 4 then cpsr_n = 1
         else if condition = 5 then cpsr_n = 0
         else if condition = 6 then cpsr_v = 1
         else if condition = 7 then cpsr_v = 0
         else if condition = 8 then cpsr_c = 1 \<and> cpsr_z = 0
         else if condition = 9 then cpsr_c = 0 \<or> cpsr_z = 1
         else if condition = 10 then cpsr_n = cpsr_v
         else if condition = 11 then cpsr_n \<noteq> cpsr_v
         else if condition = 12 then cpsr_z = 0 \<and> cpsr_n = cpsr_v
         else if condition = 13 then cpsr_z = 1 \<or> cpsr_n \<noteq> cpsr_v
         else if condition = 14 then True
         else other)"

text \<open>
  The condition table of the ARM architecture as a table: the 15 codes by name, their
  numbers, and for each the flag combination under which an instruction executes
  (flags as truth values, in the order N, Z, C, V).
\<close>

datatype condition_code =
  COND_EQ | COND_NE | COND_CS | COND_CC | COND_MI | COND_PL | COND_VS | COND_VC
  | COND_HI | COND_LS | COND_GE | COND_LT | COND_GT | COND_LE | COND_AL

fun condition_number :: "condition_code \<Rightarrow> uint8_t" where
  "condition_number COND_EQ = 0"
| "condition_number COND_NE = 1"
| "condition_number COND_CS = 2"
| "condition_number COND_CC = 3"
| "condition_number COND_MI = 4"
| "condition_number COND_PL = 5"
| "condition_number COND_VS = 6"
| "condition_number COND_VC = 7"
| "condition_number COND_HI = 8"
| "condition_number COND_LS = 9"
| "condition_number COND_GE = 10"
| "condition_number COND_LT = 11"
| "condition_number COND_GT = 12"
| "condition_number COND_LE = 13"
| "condition_number COND_AL = 14"

fun arm_condition_table ::
  "condition_code \<Rightarrow> bool \<Rightarrow> bool \<Rightarrow> bool \<Rightarrow> bool \<Rightarrow> bool" where
  "arm_condition_table COND_EQ n z c v = z"
| "arm_condition_table COND_NE n z c v = (\<not> z)"
| "arm_condition_table COND_CS n z c v = c"
| "arm_condition_table COND_CC n z c v = (\<not> c)"
| "arm_condition_table COND_MI n z c v = n"
| "arm_condition_table COND_PL n z c v = (\<not> n)"
| "arm_condition_table COND_VS n z c v = v"
| "arm_condition_table COND_VC n z c v = (\<not> v)"
| "arm_condition_table COND_HI n z c v = (c \<and> \<not> z)"
| "arm_condition_table COND_LS n z c v = (\<not> c \<or> z)"
| "arm_condition_table COND_GE n z c v = (n = v)"
| "arm_condition_table COND_LT n z c v = (n \<noteq> v)"
| "arm_condition_table COND_GT n z c v = (\<not> z \<and> n = v)"
| "arm_condition_table COND_LE n z c v = (z \<or> n \<noteq> v)"
| "arm_condition_table COND_AL n z c v = True"

section \<open>The breakpoint location list\<close>

text \<open>
  BreakpointLocationList.h declares the members of the class: the vector
  \<open>m_locations\<close>, the map \<open>m_address_to_location\<close> from addresses to locations, and
  the counter \<open>m_next_id\<close>. \<open>GetSize\<close> is defined in the header; the other member
  functions are declared there and defined in BreakpointLocationList.cpp, which is not
  among the source files.
\<close>

text \<open>
  Modelled from the spec: the class \<open>BreakpointLocation\<close> and the type
  \<open>lldb::break_id_t\<close> are declared outside the source files. The spec gives a location
  an integer location id and an address. The ids are mathematical integers here, as the
  spec's "monotonically increasing, never reused" reads; the address type is a parameter.
\<close>

type_synonym break_id_t = int

record 'a BreakpointLocation =
  GetID :: break_id_t
  GetAddress :: 'a

record 'a BreakpointLocationList =
  m_locations :: "'a BreakpointLocation list"
  m_address_to_location :: "'a \<Rightarrow> 'a BreakpointLocation option"
  m_next_id :: break_id_t

text \<open>\<open>GetSize\<close>, from the header: \<open>return m_locations.size();\<close>.\<close>

definition GetSize :: "'a BreakpointLocationList \<Rightarrow> nat" where
  "GetSize s = length (m_locations s)"

text \<open>
  Modelled from the spec: the constructor is defined in BreakpointLocationList.cpp. The
  header's comment says that it creates an empty breakpoint location list; the counter
  starts at 0.
\<close>

definition BreakpointLocationList_ctor :: "'a BreakpointLocationList" where
  "BreakpointLocationList_ctor =
     \<lparr>m_locations = [], m_address_to_location = Map.empty, m_next_id = 0\<rparr>"

text \<open>
  Modelled from the spec: \<open>FindByAddress\<close> is defined in BreakpointLocationList.cpp.
  The spec: the lookup by address goes through the address index; an absent address
  gives an invalid handle (\<open>None\<close>).
\<close>

definition FindByAddress ::
  "'a BreakpointLocationList \<Rightarrow> 'a \<Rightarrow> 'a BreakpointLocation option" where
  "FindByAddress s addr = m_address_to_location s addr"

text \<open>
  Modelled from the spec: \<open>AddLocation\<close> is defined in BreakpointLocationList.cpp. The
  spec: if the address is already indexed, it returns the existing location with
  \<open>isNew = false\<close>; otherwise it allocates a monotonically increasing id and inserts the
  new location into both the list and the address index. The new id is the counter plus
  one, and the counter moves on to it. The result is the location, the flag, and the list
  after the call.
\<close>

definition AddLocation ::
  "'a \<Rightarrow> 'a BreakpointLocationList \<Rightarrow>
     ('a BreakpointLocation \<times> bool) \<times> 'a BreakpointLocationList" where
  "AddLocation addr s =
     (case FindByAddress s addr of
        Some loc \<Rightarrow> ((loc, False), s)
      | None \<Rightarrow>
          (let loc = \<lparr>GetID = m_next_id s + 1, GetAddress = addr\<rparr>
           in ((loc, True),
               s\<lparr>m_locations := m_locations s @ [loc],
                 m_address_to_location := (m_address_to_location s)(addr \<mapsto> loc),
                 m_next_id := m_next_id s + 1\<rparr>)))"

text \<open>
  Modelled from the spec: \<open>Create\<close> is defined in BreakpointLocationList.cpp. The spec
  describes \<open>Create(addr)\<close> and \<open>AddLocation(addr, &isNew)\<close> in one sentence, with the
  same behaviour; \<open>Create\<close> returns the location without the flag.
\<close>

definition Create ::
  "'a \<Rightarrow> 'a BreakpointLocationList \<Rightarrow> 'a BreakpointLocation \<times> 'a BreakpointLocationList" where
  "Create addr s = (fst (fst (AddLocation addr s)), snd (AddLocation addr s))"

text \<open>
  Modelled from the spec: \<open>RemoveLocation\<close> is defined in BreakpointLocationList.cpp.
  The spec: it removes the location from the list and from the index and reports whether
  it was present.
\<close>

definition RemoveLocation ::
  "'a BreakpointLocation \<Rightarrow> 'a BreakpointLocationList \<Rightarrow> bool \<times> 'a BreakpointLocationList" where
  "RemoveLocation loc s =
     (if loc \<in> set (m_locations s) then
        (True, s\<lparr>m_locations := removeAll loc (m_locations s),
                  m_address_to_location := (m_address_to_location s)(GetAddress loc := None)\<rparr>)
      else (False, s))"

subsection \<open>Sequences of calls\<close>

text \<open>
  A history of the list is a sequence of calls of its owner. \<open>run_calls\<close> gives the
  list after the calls, \<open>issued_ids\<close> the ids of the locations that the creating calls
  returned, in the order of the calls.
\<close>

datatype 'a call =
  Call_Create 'a
  | Call_AddLocation 'a
  | Call_RemoveLocation "'a BreakpointLocation"

fun call_state :: "'a call \<Rightarrow> 'a BreakpointLocationList \<Rightarrow> 'a BreakpointLocationList" where
  "call_state (Call_Create addr) s = snd (Create addr s)"
| "call_state (Call_AddLocation addr) s = snd (AddLocation addr s)"
| "call_state (Call_RemoveLocation loc) s = snd (RemoveLocation loc s)"

fun call_id :: "'a call \<Rightarrow> 'a BreakpointLocationList \<Rightarrow> break_id_t list" where
  "call_id (Call_Create addr) s = [GetID (fst (Create addr s))]"
| "call_id (Call_AddLocation addr) s = [GetID (fst (fst (AddLocation addr s)))]"
| "call_id (Call_RemoveLocation loc) s = []"

fun run_calls :: "'a call list \<Rightarrow> 'a BreakpointLocationList \<Rightarrow> 'a BreakpointLocationList" where
  "run_calls [] s = s"
| "run_calls (c # cs) s = run_calls cs (call_state c s)"

fun issued_ids :: "'a call list \<Rightarrow> 'a BreakpointLocationList \<Rightarrow> break_id_t list" where
  "issued_ids [] s = []"
| "issued_ids (c # cs) s = call_id c s @ issued_ids cs (call_state c s)"

fun creates :: "'a call \<Rightarrow> bool" where
  "creates (Call_RemoveLocation loc) = False"
| "creates c = True"

fun call_addr :: "'a call \<Rightarrow> 'a" where
  "call_addr (Call_Create addr) = addr"
| "call_addr (Call_AddLocation addr) = addr"
| "call_addr (Call_RemoveLocation loc) = GetAddress loc"

text \<open>
  The invariant of the list: no two locations share an address or an id, the index holds
  exactly the locations of the list under their addresses, and no id is beyond the
  counter.
\<close>

definition registry_inv :: "'a BreakpointLocationList \<Rightarrow> bool" where
  "registry_inv s \<longleftrightarrow>
     distinct (map GetAddress (m_locations s)) \<and>
     distinct (map GetID (m_locations s)) \<and>
     (\<forall>a loc. m_address_to_location s a = Some loc \<longleftrightarrow>
        loc \<in> set (m_locations s) \<and> GetAddress loc = a) \<and>
     (\<forall>loc \<in> set (m_locations s). GetID loc \<le> m_next_id s)"

section \<open>Test data\<close>

text \<open>
  The tag values 0 to 4; a state whose eight slots hold eight different values; raw
  storage of zeros, which reads as valid before the constructor has run.
\<close>

definition tags0 :: RegisterSetTag where
  "tags0 = \<lparr>e_regSetALL = 0, e_regSetGPR = 1, e_regSetVFP = 2, e_regSetEXC = 3,
            e_regSetDBG = 4\<rparr>"

definition state0 :: "(unit, unit) State" where
  "state0 = \<lparr>context = (), dbg = (), gpr_errs = [1, 16], vfp_errs = [2, 32],
             exc_errs = [4, 64], dbg_errs = [8, 128]\<rparr>"

definition raw0 :: "(unit, unit) State" where
  "raw0 = \<lparr>context = (), dbg = (), gpr_errs = [0, 0], vfp_errs = [0, 0],
           exc_errs = [0, 0], dbg_errs = [0, 0]\<rparr>"

definition calls0 :: "nat call list" where
  "calls0 = [Call_Create 10, Call_AddLocation 20, Call_Create 10]"

definition calls1 :: "nat call list" where
  "calls1 = [Call_Create 10, Call_Create 20]"

definition loc1 :: "nat BreakpointLocation" where
  "loc1 = \<lparr>GetID = 1, GetAddress = 10\<rparr>"

section \<open>Properties of the cached register state\<close>

lemma tags0_distinct: "tags_distinct tags0"
  by (simp add: tags_distinct_def tags0_def)

lemma state0_ok: "State_ok state0"
  by (simp add: State_ok_def state0_def)

lemma raw0_ok: "State_ok raw0"
  by (simp add: State_ok_def raw0_def)

lemma unat_idx: "(i :: uint32_t) < kNumErrors \<Longrightarrow> unat i < 2"
  by (simp add: kNumErrors_def word_less_nat_alt)

lemma idx_cases: "(i :: uint32_t) < kNumErrors \<Longrightarrow> i = Read \<or> i = Write"
proof -
  assume "i < kNumErrors"
  then have "unat i < 2" by (rule unat_idx)
  then have "unat i = 0 \<or> unat i = 1" by arith
  then show ?thesis
    by (auto simp: Read_def Write_def word_unat_eq_iff)
qed

subsection \<open>GetError of all sets\<close>

text \<open>
  Claim C1. For every state and every error index below \<open>kNumErrors\<close> (that is,
  \<open>Read\<close> or \<open>Write\<close>, by \<open>idx_cases\<close>), \<open>GetError(e_regSetALL, idx)\<close> is the bitwise OR
  of the four per-set errors at that index, whatever the four stored values are.
\<close>

theorem GetError_ALL_is_OR:
  "err_idx < kNumErrors \<Longrightarrow>
   GetError t s (e_regSetALL t) err_idx =
     gpr_errs s ! unat err_idx OR vfp_errs s ! unat err_idx OR
     exc_errs s ! unat err_idx OR dbg_errs s ! unat err_idx"
  by (simp add: GetError_def)

theorem GetError_ALL_is_OR_witness:
  "Read < kNumErrors \<and> GetError tags0 state0 (e_regSetALL tags0) Read = 15 \<and>
   Write < kNumErrors \<and> GetError tags0 state0 (e_regSetALL tags0) Write = 240"
  using GetError_ALL_is_OR [of Read tags0 state0] GetError_ALL_is_OR [of Write tags0 state0]
  by (simp add: Read_def Write_def kNumErrors_def state0_def)

subsection \<open>Validity of a register set\<close>

text \<open>
  Claim C2. For every state and every register set, \<open>RegsAreValid(set)\<close> holds exactly
  when \<open>GetError(set, Read)\<close> is \<open>KERN_SUCCESS\<close>. For the set ALL this is the case
  exactly when all four read errors are \<open>KERN_SUCCESS\<close>: a single read error that is
  not the success code makes \<open>RegsAreValid(e_regSetALL)\<close> false.
\<close>

theorem RegsAreValid_iff_success:
  "(RegsAreValid t s set_tag \<longleftrightarrow> GetError t s set_tag Read = KERN_SUCCESS) \<and>
   (RegsAreValid t s (e_regSetALL t) \<longleftrightarrow>
      gpr_errs s ! 0 = KERN_SUCCESS \<and> vfp_errs s ! 0 = KERN_SUCCESS \<and>
      exc_errs s ! 0 = KERN_SUCCESS \<and> dbg_errs s ! 0 = KERN_SUCCESS) \<and>
   (gpr_errs s ! 0 \<noteq> KERN_SUCCESS \<or> vfp_errs s ! 0 \<noteq> KERN_SUCCESS \<or>
    exc_errs s ! 0 \<noteq> KERN_SUCCESS \<or> dbg_errs s ! 0 \<noteq> KERN_SUCCESS \<longrightarrow>
      \<not> RegsAreValid t s (e_regSetALL t))"
  by (auto simp: RegsAreValid_def GetError_def KERN_SUCCESS_def Read_def kNumErrors_def
      or_eq_0_iff)

theorem RegsAreValid_iff_success_witness:
  "dbg_errs (raw0\<lparr>dbg_errs := [8, 0]\<rparr>) ! 0 \<noteq> KERN_SUCCESS \<and>
   \<not> RegsAreValid tags0 (raw0\<lparr>dbg_errs := [8, 0]\<rparr>) (e_regSetALL tags0) \<and>
   RegsAreValid tags0 (raw0\<lparr>dbg_errs := [0, 8]\<rparr>) (e_regSetALL tags0) \<and>
   \<not> RegsAreValid tags0 state0 (e_regSetALL tags0)"
  using RegsAreValid_iff_success [THEN conjunct2, of tags0 "raw0\<lparr>dbg_errs := [8, 0]\<rparr>"]
    RegsAreValid_iff_success [THEN conjunct2, of tags0 "raw0\<lparr>dbg_errs := [0, 8]\<rparr>"]
    RegsAreValid_iff_success [THEN conjunct2, of tags0 state0]
  by (simp add: state0_def raw0_def KERN_SUCCESS_def)

subsection \<open>The frame of SetError\<close>

lemma SetError_rejects:
  "\<not> err_idx < kNumErrors \<or>
   set_tag \<notin> {e_regSetALL t, e_regSetGPR t, e_regSetVFP t, e_regSetEXC t, e_regSetDBG t} \<Longrightarrow>
   SetError t s set_tag err_idx err = (False, s)"
  by (auto simp: SetError_def)

lemma SetError_accepts:
  "err_idx < kNumErrors \<Longrightarrow>
   set_tag \<in> {e_regSetALL t, e_regSetGPR t, e_regSetVFP t, e_regSetEXC t, e_regSetDBG t} \<Longrightarrow>
   fst (SetError t s set_tag err_idx err)"
  by (auto simp: SetError_def)

lemma SetError_fields:
  "context (snd (SetError t s set_tag err_idx err)) = context s"
  "dbg (snd (SetError t s set_tag err_idx err)) = dbg s"
  by (simp_all add: SetError_def)

lemma SetError_ok: "State_ok s \<Longrightarrow> State_ok (snd (SetError t s set_tag err_idx err))"
  by (simp add: SetError_def State_ok_def)

lemma SetError_gpr:
  assumes "tags_distinct t" "State_ok s" "err_idx < kNumErrors" "j < 2"
  shows "gpr_errs (snd (SetError t s set_tag err_idx err)) ! j =
    (if j = unat err_idx \<and> (set_tag = e_regSetGPR t \<or> set_tag = e_regSetALL t) then err
     else gpr_errs s ! j)"
  using assms unat_idx [of err_idx]
  by (auto simp: SetError_def State_ok_def tags_distinct_def nth_list_update)

lemma SetError_vfp:
  assumes "tags_distinct t" "State_ok s" "err_idx < kNumErrors" "j < 2"
  shows "vfp_errs (snd (SetError t s set_tag err_idx err)) ! j =
    (if j = unat err_idx \<and> (set_tag = e_regSetVFP t \<or> set_tag = e_regSetALL t) then err
     else vfp_errs s ! j)"
  using assms unat_idx [of err_idx]
  by (auto simp: SetError_def State_ok_def tags_distinct_def nth_list_update)

lemma SetError_exc:
  assumes "tags_distinct t" "State_ok s" "err_idx < kNumErrors" "j < 2"
  shows "exc_errs (snd (SetError t s set_tag err_idx err)) ! j =
    (if j = unat err_idx \<and> (set_tag = e_regSetEXC t \<or> set_tag = e_regSetALL t) then err
     else exc_errs s ! j)"
  using assms unat_idx [of err_idx]
  by (auto simp: SetError_def State_ok_def tags_distinct_def nth_list_update)

lemma SetError_dbg:
  assumes "tags_distinct t" "State_ok s" "err_idx < kNumErrors" "j < 2"
  shows "dbg_errs (snd (SetError t s set_tag err_idx err)) ! j =
    (if j = unat err_idx \<and> (set_tag = e_regSetDBG t \<or> set_tag = e_regSetALL t) then err
     else dbg_errs s ! j)"
  using assms unat_idx [of err_idx]
  by (auto simp: SetError_def State_ok_def tags_distinct_def nth_list_update)

text \<open>
  Claim C9. For every state, every index below \<open>kNumErrors\<close> and every error value,
  \<open>SetError(set, idx, err)\<close> with one of the five set tags returns true and stores
  \<open>err\<close> at column \<open>idx\<close> of the array of that set, and of all four arrays when the
  set is ALL; every other slot of the four arrays, the register context and the debug
  block stay as they were. With any other set tag, or with an index that is not below
  \<open>kNumErrors\<close>, it returns false and the state is unchanged.
\<close>

theorem SetError_frame:
  assumes "tags_distinct t" and "State_ok s"
  shows
    "(err_idx < kNumErrors \<and>
      set_tag \<in> {e_regSetALL t, e_regSetGPR t, e_regSetVFP t, e_regSetEXC t, e_regSetDBG t} \<longrightarrow>
        fst (SetError t s set_tag err_idx err) \<and>
        (\<forall>j<2. gpr_errs (snd (SetError t s set_tag err_idx err)) ! j =
           (if j = unat err_idx \<and> (set_tag = e_regSetGPR t \<or> set_tag = e_regSetALL t)
            then err else gpr_errs s ! j)) \<and>
        (\<forall>j<2. vfp_errs (snd (SetError t s set_tag err_idx err)) ! j =
           (if j = unat err_idx \<and> (set_tag = e_regSetVFP t \<or> set_tag = e_regSetALL t)
            then err else vfp_errs s ! j)) \<and>
        (\<forall>j<2. exc_errs (snd (SetError t s set_tag err_idx err)) ! j =
           (if j = unat err_idx \<and> (set_tag = e_regSetEXC t \<or> set_tag = e_regSetALL t)
            then err else exc_errs s ! j)) \<and>
        (\<forall>j<2. dbg_errs (snd (SetError t s set_tag err_idx err)) ! j =
           (if j = unat err_idx \<and> (set_tag = e_regSetDBG t \<or> set_tag = e_regSetALL t)
            then err else dbg_errs s ! j)) \<and>
        State_ok (snd (SetError t s set_tag err_idx err)) \<and>
        context (snd (SetError t s set_tag err_idx err)) = context s \<and>
        dbg (snd (SetError t s set_tag err_idx err)) = dbg s) \<and>
     (\<not> err_idx < kNumErrors \<or>
      set_tag \<notin> {e_regSetALL t, e_regSetGPR t, e_regSetVFP t, e_regSetEXC t, e_regSetDBG t} \<longrightarrow>
        SetError t s set_tag err_idx err = (False, s))"
proof (intro conjI impI)
  assume a: "err_idx < kNumErrors \<and>
      set_tag \<in> {e_regSetALL t, e_regSetGPR t, e_regSetVFP t, e_regSetEXC t, e_regSetDBG t}"
  show "fst (SetError t s set_tag err_idx err)"
    using a by (simp add: SetError_accepts)
  show "\<forall>j<2. gpr_errs (snd (SetError t s set_tag err_idx err)) ! j =
           (if j = unat err_idx \<and> (set_tag = e_regSetGPR t \<or> set_tag = e_regSetALL t)
            then err else gpr_errs s ! j)"
    using a assms by (intro allI impI, subst SetError_gpr) simp_all
  show "\<forall>j<2. vfp_errs (snd (SetError t s set_tag err_idx err)) ! j =
           (if j = unat err_idx \<and> (set_tag = e_regSetVFP t \<or> set_tag = e_regSetALL t)
            then err else vfp_errs s ! j)"
    using a assms by (intro allI impI, subst SetError_vfp) simp_all
  show "\<forall>j<2. exc_errs (snd (SetError t s set_tag err_idx err)) ! j =
           (if j = unat err_idx \<and> (set_tag = e_regSetEXC t \<or> set_tag = e_regSetALL t)
            then err else exc_errs s ! j)"
    using a assms by (intro allI impI, subst SetError_exc) simp_all
  show "\<forall>j<2. dbg_errs (snd (SetError t s set_tag err_idx err)) ! j =
           (if j = unat err_idx \<and> (set_tag = e_regSetDBG t \<or> set_tag = e_regSetALL t)
            then err else dbg_errs s ! j)"
    using a assms by (intro allI impI, subst SetError_dbg) simp_all
  show "State_ok (snd (SetError t s set_tag err_idx err))"
    using assms by (simp add: SetError_ok)
  show "context (snd (SetError t s set_tag err_idx err)) = context s"
    by (simp add: SetError_fields)
  show "dbg (snd (SetError t s set_tag err_idx err)) = dbg s"
    by (simp add: SetError_fields)
next
  assume "\<not> err_idx < kNumErrors \<or>
      set_tag \<notin> {e_regSetALL t, e_regSetGPR t, e_regSetVFP t, e_regSetEXC t, e_regSetDBG t}"
  then show "SetError t s set_tag err_idx err = (False, s)"
    by (rule SetError_rejects)
qed

theorem SetError_frame_witness:
  "tags_distinct tags0 \<and> State_ok state0 \<and> Write < kNumErrors \<and>
   SetError tags0 state0 (e_regSetVFP tags0) Write 5 = (True, state0\<lparr>vfp_errs := [2, 5]\<rparr>) \<and>
   SetError tags0 state0 (e_regSetALL tags0) Read 9 =
     (True, state0\<lparr>gpr_errs := [9, 16], vfp_errs := [9, 32], exc_errs := [9, 64],
                     dbg_errs := [9, 128]\<rparr>) \<and>
   SetError tags0 state0 7 Write 5 = (False, state0) \<and>
   SetError tags0 state0 (e_regSetVFP tags0) 2 5 = (False, state0)"
proof -
  have c: "SetError tags0 state0 (e_regSetVFP tags0) Write 5 = (True, state0\<lparr>vfp_errs := [2, 5]\<rparr>)"
    "SetError tags0 state0 (e_regSetALL tags0) Read 9 =
     (True, state0\<lparr>gpr_errs := [9, 16], vfp_errs := [9, 32], exc_errs := [9, 64],
                     dbg_errs := [9, 128]\<rparr>)"
    by (simp_all add: SetError_def tags0_def state0_def Read_def Write_def kNumErrors_def)
  have r: "SetError tags0 state0 7 Write 5 = (False, state0)"
    "SetError tags0 state0 (e_regSetVFP tags0) 2 5 = (False, state0)"
    using SetError_frame [OF tags0_distinct state0_ok, of Write 7 5]
      SetError_frame [OF tags0_distinct state0_ok, of 2 "e_regSetVFP tags0" 5]
    by (simp_all add: tags0_def kNumErrors_def)
  have pre: "Write < kNumErrors \<and>
      e_regSetVFP tags0 \<in> {e_regSetALL tags0, e_regSetGPR tags0, e_regSetVFP tags0,
        e_regSetEXC tags0, e_regSetDBG tags0}"
    by (simp add: Write_def kNumErrors_def)
  have a: "fst (SetError tags0 state0 (e_regSetVFP tags0) Write 5)"
    using SetError_frame [OF tags0_distinct state0_ok, of Write "e_regSetVFP tags0" 5] pre
    by blast
  show ?thesis
    using tags0_distinct state0_ok a c r by (simp add: Write_def kNumErrors_def)
qed

subsection \<open>A fresh state\<close>

lemma State_ctor_unfold: "State_ctor s = State_ctor_body 1 (State_ctor_body 0 s)"
  unfolding State_ctor_def
  apply (subst State_ctor_loop.simps)
  apply (subst State_ctor_loop.simps)
  apply (subst State_ctor_loop.simps)
  apply (simp add: kNumErrors_def)
  done

lemma State_ctor_slots:
  assumes "State_ok s"
  shows "gpr_errs (State_ctor s) = [- 1, - 1]" "vfp_errs (State_ctor s) = [- 1, - 1]"
    "exc_errs (State_ctor s) = [- 1, - 1]" "dbg_errs (State_ctor s) = [- 1, - 1]"
  using assms
  by (auto simp: State_ctor_unfold State_ctor_body_def State_ok_def length_Suc_conv
      numeral_2_eq_2)

text \<open>
  Claim C10. Whatever the raw storage held, after the constructor all eight error slots
  (read and write, of GPR, VFP, EXC and DBG) are \<open>-1\<close>; so \<open>GetError\<close> is \<open>-1\<close> and
  \<open>RegsAreValid(set)\<close> is false for every set, ALL, GPR, VFP, EXC and DBG among them:
  each register set starts invalid.
\<close>

theorem fresh_State_invalid:
  assumes "State_ok s"
  shows "gpr_errs (State_ctor s) = [- 1, - 1] \<and> vfp_errs (State_ctor s) = [- 1, - 1] \<and>
         exc_errs (State_ctor s) = [- 1, - 1] \<and> dbg_errs (State_ctor s) = [- 1, - 1] \<and>
         GetError t (State_ctor s) set_tag err_idx = - 1 \<and>
         \<not> RegsAreValid t (State_ctor s) set_tag"
proof -
  have g: "GetError t (State_ctor s) set_tag i = - 1" for i
  proof (cases "i < kNumErrors")
    case True
    then have "unat i = 0 \<or> unat i = 1" using unat_idx [of i] by arith
    then show ?thesis
      by (auto simp: GetError_def State_ctor_slots [OF assms])
  next
    case False
    then show ?thesis by (simp add: GetError_def)
  qed
  show ?thesis
    by (simp add: State_ctor_slots [OF assms] g RegsAreValid_def KERN_SUCCESS_def)
qed

theorem fresh_State_invalid_witness:
  "State_ok raw0 \<and> RegsAreValid tags0 raw0 (e_regSetALL tags0) \<and>
   RegsAreValid tags0 raw0 (e_regSetDBG tags0) \<and>
   \<not> RegsAreValid tags0 (State_ctor raw0) (e_regSetALL tags0) \<and>
   \<not> RegsAreValid tags0 (State_ctor raw0) (e_regSetDBG tags0) \<and>
   dbg_errs (State_ctor raw0) = [- 1, - 1]"
proof -
  have v: "RegsAreValid tags0 raw0 (e_regSetALL tags0)"
    "RegsAreValid tags0 raw0 (e_regSetDBG tags0)"
    by (simp_all add: RegsAreValid_def GetError_def Read_def kNumErrors_def KERN_SUCCESS_def
        raw0_def tags0_def)
  show ?thesis
    using raw0_ok v fresh_State_invalid [OF raw0_ok, of tags0 "e_regSetALL tags0"]
      fresh_State_invalid [OF raw0_ok, of tags0 "e_regSetDBG tags0"]
    by simp
qed

section \<open>Properties of the condition check\<close>

lemma bit_of_of_bool: "bit_of w n = of_bool (bit w n)"
  by (simp add: bit_of_def and_one_eq mod_2_eq_odd bit_iff_odd_drop_bit)

lemma bit_of_1: "bit_of w n = 1 \<longleftrightarrow> bit w n"
  by (simp add: bit_of_of_bool)

lemma bit_of_0: "bit_of w n = 0 \<longleftrightarrow> \<not> bit w n"
  by (simp add: bit_of_of_bool)

lemma bit_of_eq: "bit_of w n = bit_of w' m \<longleftrightarrow> (bit w n \<longleftrightarrow> bit w' m)"
  by (simp add: bit_of_of_bool)

lemma ConditionPassed_by_name:
  "ConditionPassed other (condition_number cc) cpsr =
     arm_condition_table cc (bit cpsr 31) (bit cpsr 30) (bit cpsr 29) (bit cpsr 28)"
  by (cases cc) (simp_all add: ConditionPassed_def Let_def bit_of_1 bit_of_0 bit_of_eq)

text \<open>
  Claim C3. For each of the 15 condition codes and every CPSR value, that is, every
  combination of the flags N, Z, C and V (bits 31 to 28), \<open>ConditionPassed\<close> gives the
  result of the ARM condition table. In particular, with N = 1 and V = 1 the code GE
  (10) passes and the code LT (11) does not.
\<close>

theorem ConditionPassed_table:
  "ConditionPassed other (condition_number cc) cpsr =
     arm_condition_table cc (bit cpsr 31) (bit cpsr 30) (bit cpsr 29) (bit cpsr 28) \<and>
   (bit cpsr 31 \<and> bit cpsr 28 \<longrightarrow>
      ConditionPassed other (condition_number COND_GE) cpsr \<and>
      \<not> ConditionPassed other (condition_number COND_LT) cpsr)"
  using ConditionPassed_by_name [of other COND_GE cpsr]
    ConditionPassed_by_name [of other COND_LT cpsr]
  by (simp add: ConditionPassed_by_name)

theorem ConditionPassed_table_witness:
  "bit (0x90000000 :: uint32_t) 31 \<and> bit (0x90000000 :: uint32_t) 28 \<and>
   ConditionPassed False 10 0x90000000 \<and> \<not> ConditionPassed True 11 0x90000000 \<and>
   ConditionPassed False (condition_number COND_LE) 0x40000000 \<and>
   \<not> ConditionPassed True (condition_number COND_HI) 0x60000000"
  using ConditionPassed_table [of False COND_GE "0x90000000"]
    ConditionPassed_table [of True COND_LT "0x90000000"]
    ConditionPassed_table [of False COND_LE "0x40000000"]
    ConditionPassed_table [of True COND_HI "0x60000000"]
  by simp

section \<open>Properties of the breakpoint location list\<close>

lemma inv_ctor: "registry_inv BreakpointLocationList_ctor"
  by (simp add: registry_inv_def BreakpointLocationList_ctor_def)

lemma AddLocation_Some:
  "m_address_to_location s addr = Some loc \<Longrightarrow> AddLocation addr s = ((loc, False), s)"
  by (simp add: AddLocation_def FindByAddress_def)

lemma AddLocation_None:
  "m_address_to_location s addr = None \<Longrightarrow>
   AddLocation addr s =
     ((\<lparr>GetID = m_next_id s + 1, GetAddress = addr\<rparr>, True),
      s\<lparr>m_locations := m_locations s @ [\<lparr>GetID = m_next_id s + 1, GetAddress = addr\<rparr>],
        m_address_to_location :=
          (m_address_to_location s)(addr \<mapsto> \<lparr>GetID = m_next_id s + 1, GetAddress = addr\<rparr>),
        m_next_id := m_next_id s + 1\<rparr>)"
  by (simp add: AddLocation_def FindByAddress_def Let_def)

lemma inv_indexed:
  "registry_inv s \<Longrightarrow> m_address_to_location s a = Some loc \<longleftrightarrow>
     loc \<in> set (m_locations s) \<and> GetAddress loc = a"
  by (simp add: registry_inv_def)

lemma inv_not_indexed:
  assumes i: "registry_inv s"
  shows "m_address_to_location s a = None \<longleftrightarrow> a \<notin> GetAddress ` set (m_locations s)"
proof
  assume n: "m_address_to_location s a = None"
  show "a \<notin> GetAddress ` set (m_locations s)"
  proof
    assume "a \<in> GetAddress ` set (m_locations s)"
    then obtain loc where "loc \<in> set (m_locations s)" "GetAddress loc = a" by auto
    then have "m_address_to_location s a = Some loc" using i by (simp add: inv_indexed)
    with n show False by simp
  qed
next
  assume n: "a \<notin> GetAddress ` set (m_locations s)"
  show "m_address_to_location s a = None"
  proof (cases "m_address_to_location s a")
    case None then show ?thesis .
  next
    case (Some loc)
    then have "loc \<in> set (m_locations s) \<and> GetAddress loc = a" using i by (simp add: inv_indexed)
    with n show ?thesis by auto
  qed
qed

lemma inv_ids_bounded:
  "registry_inv s \<Longrightarrow> loc \<in> set (m_locations s) \<Longrightarrow> GetID loc \<le> m_next_id s"
  by (simp add: registry_inv_def)

lemma inv_AddLocation:
  assumes i: "registry_inv s"
  shows "registry_inv (snd (AddLocation addr s))"
proof (cases "m_address_to_location s addr")
  case (Some loc)
  then show ?thesis using i by (simp add: AddLocation_Some)
next
  case None
  have fresh: "addr \<notin> GetAddress ` set (m_locations s)"
    using None i by (simp add: inv_not_indexed)
  have fresh_id: "m_next_id s + 1 \<notin> GetID ` set (m_locations s)"
    using inv_ids_bounded [OF i] by fastforce
  have d: "distinct (map GetAddress (m_locations s))" "distinct (map GetID (m_locations s))"
    using i by (simp_all add: registry_inv_def)
  have b: "\<forall>loc \<in> set (m_locations s). GetID loc \<le> m_next_id s"
    using i by (simp add: registry_inv_def)
  have ix: "\<And>a loc. m_address_to_location s a = Some loc \<longleftrightarrow>
     loc \<in> set (m_locations s) \<and> GetAddress loc = a"
    using i by (simp add: registry_inv_def)
  show ?thesis
    unfolding AddLocation_None [OF None] registry_inv_def
    using d fresh fresh_id b by (auto simp: ix)
qed

lemma inv_RemoveLocation:
  assumes i: "registry_inv s"
  shows "registry_inv (snd (RemoveLocation loc s))"
proof (cases "loc \<in> set (m_locations s)")
  case False
  then show ?thesis using i by (simp add: RemoveLocation_def)
next
  case True
  have d: "distinct (map GetAddress (m_locations s))" "distinct (map GetID (m_locations s))"
    using i by (simp_all add: registry_inv_def)
  have b: "\<forall>loc \<in> set (m_locations s). GetID loc \<le> m_next_id s"
    using i by (simp add: registry_inv_def)
  have ix: "\<And>a loc. m_address_to_location s a = Some loc \<longleftrightarrow>
     loc \<in> set (m_locations s) \<and> GetAddress loc = a"
    using i by (simp add: registry_inv_def)
  have same: "\<And>l. l \<in> set (m_locations s) \<Longrightarrow> GetAddress l = GetAddress loc \<Longrightarrow> l = loc"
    using d(1) True by (meson distinct_map inj_onD)
  show ?thesis
    unfolding registry_inv_def
    using True d b same
    by (auto simp: RemoveLocation_def ix removeAll_filter_not_eq distinct_map_filter)
qed

lemma inv_call_state: "registry_inv s \<Longrightarrow> registry_inv (call_state c s)"
  by (cases c) (simp_all add: Create_def inv_AddLocation inv_RemoveLocation)

lemma inv_run_calls: "registry_inv s \<Longrightarrow> registry_inv (run_calls cs s)"
  by (induction cs arbitrary: s) (simp_all add: inv_call_state)

lemma AddLocation_indexes:
  "\<exists>loc. fst (fst (AddLocation a s)) = loc \<and> GetAddress loc = a \<and>
     m_address_to_location (snd (AddLocation a s)) a = Some loc" if "registry_inv s"
proof (cases "m_address_to_location s a")
  case None
  then show ?thesis by (simp add: AddLocation_None)
next
  case (Some loc)
  then show ?thesis using that by (simp add: AddLocation_Some inv_indexed)
qed

lemma AddLocation_keeps_index:
  "m_address_to_location s b = Some loc \<Longrightarrow>
   m_address_to_location (snd (AddLocation a s)) b = Some loc"
  by (cases "m_address_to_location s a") (auto simp: AddLocation_None AddLocation_Some)

lemma creating_call_state:
  "creates c \<Longrightarrow> call_state c s = snd (AddLocation (call_addr c) s)"
  by (cases c) (simp_all add: Create_def)

lemma creating_call_id:
  "creates c \<Longrightarrow> call_id c s = [GetID (fst (fst (AddLocation (call_addr c) s)))]"
  by (cases c) (simp_all add: Create_def)

lemma run_keeps_index:
  "\<forall>c \<in> set cs. creates c \<Longrightarrow> m_address_to_location s b = Some loc \<Longrightarrow>
   m_address_to_location (run_calls cs s) b = Some loc"
  by (induction cs arbitrary: s) (simp_all add: creating_call_state AddLocation_keeps_index)

lemma length_issued_ids:
  "\<forall>c \<in> set cs. creates c \<Longrightarrow> length (issued_ids cs s) = length cs"
  by (induction cs arbitrary: s) (simp_all add: creating_call_id)

lemma issued_id_indexed:
  assumes "registry_inv s" "\<forall>c \<in> set cs. creates c" "i < length cs"
  shows "\<exists>loc. m_address_to_location (run_calls cs s) (call_addr (cs ! i)) = Some loc \<and>
           GetID loc = issued_ids cs s ! i"
  using assms
proof (induction cs arbitrary: s i)
  case Nil
  then show ?case by simp
next
  case (Cons c cs)
  have c: "creates c" and cs: "\<forall>c \<in> set cs. creates c" using Cons.prems(2) by simp_all
  show ?case
  proof (cases i)
    case 0
    obtain loc where l: "fst (fst (AddLocation (call_addr c) s)) = loc"
      "m_address_to_location (snd (AddLocation (call_addr c) s)) (call_addr c) = Some loc"
      using AddLocation_indexes [OF Cons.prems(1)] by blast
    have "m_address_to_location (run_calls cs (call_state c s)) (call_addr c) = Some loc"
      using l(2) cs by (simp add: creating_call_state [OF c] run_keeps_index)
    then show ?thesis using 0 l(1) by (simp add: creating_call_id [OF c])
  next
    case (Suc k)
    then have k: "k < length cs" using Cons.prems(3) by simp
    have "\<exists>loc. m_address_to_location (run_calls cs (call_state c s)) (call_addr (cs ! k)) = Some loc \<and>
           GetID loc = issued_ids cs (call_state c s) ! k"
      using Cons.IH [OF inv_call_state [OF Cons.prems(1)] cs k] .
    then show ?thesis using Suc by (simp add: creating_call_id [OF c])
  qed
qed

lemma AddLocation_addresses:
  assumes "registry_inv s"
  shows "GetAddress ` set (m_locations (snd (AddLocation a s))) =
         insert a (GetAddress ` set (m_locations s))"
proof (cases "m_address_to_location s a")
  case None
  then show ?thesis by (simp add: AddLocation_None)
next
  case (Some loc)
  then have "a \<in> GetAddress ` set (m_locations s)"
    using assms by (auto simp: inv_indexed)
  then show ?thesis using Some by (auto simp: AddLocation_Some)
qed

lemma run_addresses:
  "registry_inv s \<Longrightarrow> \<forall>c \<in> set cs. creates c \<Longrightarrow>
   GetAddress ` set (m_locations (run_calls cs s)) =
     GetAddress ` set (m_locations s) \<union> call_addr ` set cs"
proof (induction cs arbitrary: s)
  case Nil
  then show ?case by simp
next
  case (Cons c cs)
  have c: "creates c" using Cons.prems(2) by simp
  have "GetAddress ` set (m_locations (run_calls cs (call_state c s))) =
     GetAddress ` set (m_locations (call_state c s)) \<union> call_addr ` set cs"
    using Cons.IH [OF inv_call_state [OF Cons.prems(1)]] Cons.prems(2) by simp
  then show ?case
    by (simp add: creating_call_state [OF c] AddLocation_addresses [OF Cons.prems(1)])
qed

lemma inv_size: "registry_inv s \<Longrightarrow> GetSize s = card (GetAddress ` set (m_locations s))"
  unfolding GetSize_def registry_inv_def
  by (metis distinct_card length_map set_map)

lemma inv_same_id:
  assumes "registry_inv s" "m_address_to_location s a = Some l" "m_address_to_location s b = Some l'"
    "GetID l = GetID l'"
  shows "a = b"
proof -
  have "l \<in> set (m_locations s)" "l' \<in> set (m_locations s)" "GetAddress l = a" "GetAddress l' = b"
    using assms by (simp_all add: inv_indexed)
  moreover have "inj_on GetID (set (m_locations s))"
    using assms(1) by (simp add: registry_inv_def distinct_map)
  ultimately show ?thesis using assms(4) by (auto dest: inj_onD)
qed

lemma calls0_creates: "\<forall>c \<in> set calls0. creates c"
  by (simp add: calls0_def)

text \<open>
  Claim C5. After any sequence of \<open>Create(addr)\<close> and \<open>AddLocation(addr, &isNew)\<close> calls
  on a new list, \<open>GetSize\<close> is the number of distinct addresses of the calls. Two calls
  return the same location id exactly when they have the same address. A call with an
  address that is already in the index returns the existing location with
  \<open>isNew = false\<close> and leaves the list as it is; a call with a new address returns
  \<open>isNew = true\<close> and its location is then in the location list and in the address index.
\<close>

theorem Create_sequence:
  assumes "\<forall>c \<in> set cs. creates c"
  shows
    "GetSize (run_calls cs BreakpointLocationList_ctor) = card (call_addr ` set cs) \<and>
     length (issued_ids cs BreakpointLocationList_ctor) = length cs \<and>
     (\<forall>i < length cs. \<forall>j < length cs.
        call_addr (cs ! i) = call_addr (cs ! j) \<longleftrightarrow>
        issued_ids cs BreakpointLocationList_ctor ! i =
        issued_ids cs BreakpointLocationList_ctor ! j) \<and>
     (\<forall>a \<in> call_addr ` set cs.
        \<exists>loc. loc \<in> set (m_locations (run_calls cs BreakpointLocationList_ctor)) \<and>
          GetAddress loc = a \<and>
          AddLocation a (run_calls cs BreakpointLocationList_ctor) =
            ((loc, False), run_calls cs BreakpointLocationList_ctor) \<and>
          Create a (run_calls cs BreakpointLocationList_ctor) =
            (loc, run_calls cs BreakpointLocationList_ctor)) \<and>
     (\<forall>a. a \<notin> call_addr ` set cs \<longrightarrow>
        snd (fst (AddLocation a (run_calls cs BreakpointLocationList_ctor))) \<and>
        fst (fst (AddLocation a (run_calls cs BreakpointLocationList_ctor)))
          \<in> set (m_locations (snd (AddLocation a (run_calls cs BreakpointLocationList_ctor)))) \<and>
        m_address_to_location (snd (AddLocation a (run_calls cs BreakpointLocationList_ctor))) a =
          Some (fst (fst (AddLocation a (run_calls cs BreakpointLocationList_ctor)))) \<and>
        GetSize (snd (AddLocation a (run_calls cs BreakpointLocationList_ctor))) =
          GetSize (run_calls cs BreakpointLocationList_ctor) + 1)"
proof -
  let ?s = "run_calls cs BreakpointLocationList_ctor"
  let ?ids = "issued_ids cs BreakpointLocationList_ctor"
  have i: "registry_inv ?s" by (simp add: inv_run_calls inv_ctor)
  have addrs: "GetAddress ` set (m_locations ?s) = call_addr ` set cs"
    using run_addresses [OF inv_ctor assms] by (simp add: BreakpointLocationList_ctor_def)
  have size: "GetSize ?s = card (call_addr ` set cs)"
    using inv_size [OF i] addrs by simp
  have len: "length ?ids = length cs" using assms by (rule length_issued_ids)
  have ids: "call_addr (cs ! i) = call_addr (cs ! j) \<longleftrightarrow> ?ids ! i = ?ids ! j"
    if ij: "i < length cs" "j < length cs" for i j
  proof -
    obtain l where l: "m_address_to_location ?s (call_addr (cs ! i)) = Some l" "GetID l = ?ids ! i"
      using issued_id_indexed [OF inv_ctor assms ij(1)] by blast
    obtain l' where l': "m_address_to_location ?s (call_addr (cs ! j)) = Some l'" "GetID l' = ?ids ! j"
      using issued_id_indexed [OF inv_ctor assms ij(2)] by blast
    show ?thesis
    proof
      assume "call_addr (cs ! i) = call_addr (cs ! j)"
      then show "?ids ! i = ?ids ! j" using l l' by simp
    next
      assume "?ids ! i = ?ids ! j"
      then show "call_addr (cs ! i) = call_addr (cs ! j)"
        using inv_same_id [OF i l(1) l'(1)] l(2) l'(2) by simp
    qed
  qed
  have old: "\<exists>loc. loc \<in> set (m_locations ?s) \<and> GetAddress loc = a \<and>
          AddLocation a ?s = ((loc, False), ?s) \<and> Create a ?s = (loc, ?s)"
    if a: "a \<in> call_addr ` set cs" for a
  proof -
    from a have "a \<in> GetAddress ` set (m_locations ?s)" by (simp only: addrs)
    then obtain loc where l: "loc \<in> set (m_locations ?s)" "GetAddress loc = a"
      by (auto simp: image_iff)
    then have "m_address_to_location ?s a = Some loc" using i by (simp add: inv_indexed)
    then have "AddLocation a ?s = ((loc, False), ?s)" by (rule AddLocation_Some)
    then show ?thesis using l by (auto simp: Create_def)
  qed
  have new: "snd (fst (AddLocation a ?s)) \<and>
        fst (fst (AddLocation a ?s)) \<in> set (m_locations (snd (AddLocation a ?s))) \<and>
        m_address_to_location (snd (AddLocation a ?s)) a = Some (fst (fst (AddLocation a ?s))) \<and>
        GetSize (snd (AddLocation a ?s)) = GetSize ?s + 1"
    if "a \<notin> call_addr ` set cs" for a
  proof -
    have "a \<notin> GetAddress ` set (m_locations ?s)" using that by (simp only: addrs not_False_eq_True)
    then have "m_address_to_location ?s a = None"
      by (simp only: inv_not_indexed [OF i] not_False_eq_True)
    then show ?thesis by (simp add: AddLocation_None GetSize_def)
  qed
  show ?thesis
  proof (intro conjI)
    show "GetSize ?s = card (call_addr ` set cs)" by (rule size)
    show "length ?ids = length cs" by (rule len)
    show "\<forall>i < length cs. \<forall>j < length cs.
        call_addr (cs ! i) = call_addr (cs ! j) \<longleftrightarrow> ?ids ! i = ?ids ! j"
      by (intro allI impI) (rule ids)
    show "\<forall>a \<in> call_addr ` set cs.
        \<exists>loc. loc \<in> set (m_locations ?s) \<and> GetAddress loc = a \<and>
          AddLocation a ?s = ((loc, False), ?s) \<and> Create a ?s = (loc, ?s)"
      by (intro ballI) (rule old)
    show "\<forall>a. a \<notin> call_addr ` set cs \<longrightarrow>
        snd (fst (AddLocation a ?s)) \<and>
        fst (fst (AddLocation a ?s)) \<in> set (m_locations (snd (AddLocation a ?s))) \<and>
        m_address_to_location (snd (AddLocation a ?s)) a = Some (fst (fst (AddLocation a ?s))) \<and>
        GetSize (snd (AddLocation a ?s)) = GetSize ?s + 1"
      by (intro allI impI) (rule new)
  qed
qed

theorem Create_sequence_witness:
  "creates (Call_Create (10::nat)) \<and> creates (Call_AddLocation (20::nat)) \<and>
   GetSize (run_calls calls0 BreakpointLocationList_ctor) = 2 \<and>
   card (call_addr ` set calls0) = 2 \<and>
   issued_ids calls0 BreakpointLocationList_ctor = [1, 2, 1]"
proof -
  have "GetSize (run_calls calls0 BreakpointLocationList_ctor) = card (call_addr ` set calls0)"
    using Create_sequence [OF calls0_creates] by (rule conjunct1)
  moreover have "issued_ids calls0 BreakpointLocationList_ctor = [1, 2, 1]"
    by (simp add: calls0_def BreakpointLocationList_ctor_def Create_def AddLocation_def
        FindByAddress_def Let_def)
  moreover have "card (call_addr ` set calls0) = 2"
    by (simp add: calls0_def card_insert_if)
  ultimately show ?thesis by simp
qed

subsection \<open>Ids are never reused\<close>

lemma AddLocation_next_id: "m_next_id s \<le> m_next_id (snd (AddLocation a s))"
  by (cases "m_address_to_location s a") (simp_all add: AddLocation_None AddLocation_Some)

lemma call_state_next_id: "m_next_id s \<le> m_next_id (call_state c s)"
  by (cases c) (simp_all add: Create_def AddLocation_next_id RemoveLocation_def)

lemma run_calls_next_id: "m_next_id s \<le> m_next_id (run_calls cs s)"
proof (induction cs arbitrary: s)
  case Nil
  show ?case by simp
next
  case (Cons c cs)
  have "m_next_id s \<le> m_next_id (call_state c s)" by (rule call_state_next_id)
  also have "\<dots> \<le> m_next_id (run_calls cs (call_state c s))" by (rule Cons.IH)
  finally show ?case by simp
qed

lemma AddLocation_id_bounded:
  assumes "registry_inv s"
  shows "GetID (fst (fst (AddLocation a s))) \<le> m_next_id (snd (AddLocation a s))"
proof (cases "m_address_to_location s a")
  case None
  then show ?thesis by (simp add: AddLocation_None)
next
  case (Some loc)
  then have "loc \<in> set (m_locations s)" using assms by (simp add: inv_indexed)
  then show ?thesis using Some inv_ids_bounded [OF assms] by (simp add: AddLocation_Some)
qed

lemma call_id_bounded:
  "registry_inv s \<Longrightarrow> i \<in> set (call_id c s) \<Longrightarrow> i \<le> m_next_id (call_state c s)"
  by (cases c) (auto simp: Create_def AddLocation_id_bounded)

lemma issued_ids_bounded:
  "registry_inv s \<Longrightarrow> i \<in> set (issued_ids cs s) \<Longrightarrow> i \<le> m_next_id (run_calls cs s)"
proof (induction cs arbitrary: s)
  case Nil
  then show ?case by simp
next
  case (Cons c cs)
  from Cons.prems(2) consider "i \<in> set (call_id c s)" | "i \<in> set (issued_ids cs (call_state c s))"
    by auto
  then show ?case
  proof cases
    case 1
    then have "i \<le> m_next_id (call_state c s)" using Cons.prems(1) by (rule call_id_bounded [rotated])
    also have "\<dots> \<le> m_next_id (run_calls cs (call_state c s))" by (rule run_calls_next_id)
    finally show ?thesis by simp
  next
    case 2
    then show ?thesis using Cons.IH [OF inv_call_state [OF Cons.prems(1)]] by simp
  qed
qed

lemma Create_fresh_id:
  "m_address_to_location s a = None \<Longrightarrow> GetID (fst (Create a s)) = m_next_id s + 1"
  by (simp add: Create_def AddLocation_None)

lemma RemoveLocation_present:
  assumes "registry_inv s" "loc \<in> set (m_locations s)"
  shows "fst (RemoveLocation loc s)"
    "loc \<notin> set (m_locations (snd (RemoveLocation loc s)))"
    "m_address_to_location (snd (RemoveLocation loc s)) (GetAddress loc) = None"
    "m_next_id (snd (RemoveLocation loc s)) = m_next_id s"
    "GetSize (snd (RemoveLocation loc s)) + 1 = GetSize s"
proof -
  show "fst (RemoveLocation loc s)" "loc \<notin> set (m_locations (snd (RemoveLocation loc s)))"
    "m_address_to_location (snd (RemoveLocation loc s)) (GetAddress loc) = None"
    "m_next_id (snd (RemoveLocation loc s)) = m_next_id s"
    using assms(2) by (simp_all add: RemoveLocation_def)
  have "distinct (m_locations s)"
    using assms(1) by (simp add: registry_inv_def distinct_map)
  then have "length (removeAll loc (m_locations s)) + 1 = length (m_locations s)"
    using assms(2) by (simp add: distinct_remove1_removeAll [symmetric] length_remove1)
       (metis Suc_pred length_pos_if_in_set)
  then show "GetSize (snd (RemoveLocation loc s)) + 1 = GetSize s"
    using assms(2) by (simp add: RemoveLocation_def GetSize_def)
qed

text \<open>
  Claim C6. Location ids increase and are never reused. After any sequence of calls on a
  new list, \<open>Create\<close> at an address that is not indexed allocates an id above every id
  that any earlier call returned. In particular, when a location of the list is removed
  with \<open>RemoveLocation\<close>, a following \<open>Create\<close> at its address gives an id above the
  removed location's id and above every id issued before, hence different from all of
  them.
\<close>

theorem location_ids_never_reused:
  "(m_address_to_location (run_calls cs BreakpointLocationList_ctor) a = None \<longrightarrow>
      snd (fst (AddLocation a (run_calls cs BreakpointLocationList_ctor))) \<and>
      (\<forall>i \<in> set (issued_ids cs BreakpointLocationList_ctor).
         i < GetID (fst (Create a (run_calls cs BreakpointLocationList_ctor))))) \<and>
   (loc \<in> set (m_locations (run_calls cs BreakpointLocationList_ctor)) \<longrightarrow>
      fst (RemoveLocation loc (run_calls cs BreakpointLocationList_ctor)) \<and>
      loc \<notin> set (m_locations (snd (RemoveLocation loc (run_calls cs BreakpointLocationList_ctor)))) \<and>
      GetID loc <
        GetID (fst (Create (GetAddress loc)
          (snd (RemoveLocation loc (run_calls cs BreakpointLocationList_ctor))))) \<and>
      (\<forall>i \<in> set (issued_ids cs BreakpointLocationList_ctor).
         i < GetID (fst (Create (GetAddress loc)
               (snd (RemoveLocation loc (run_calls cs BreakpointLocationList_ctor)))))))"
proof (intro conjI impI ballI)
  let ?s = "run_calls cs BreakpointLocationList_ctor"
  have i: "registry_inv ?s" by (simp add: inv_run_calls inv_ctor)
  {
    assume n: "m_address_to_location ?s a = None"
    show "snd (fst (AddLocation a ?s))" using n by (simp add: AddLocation_None)
    fix k assume "k \<in> set (issued_ids cs BreakpointLocationList_ctor)"
    then have "k \<le> m_next_id ?s" using inv_ctor by (rule issued_ids_bounded [rotated])
    then show "k < GetID (fst (Create a ?s))" using n by (simp add: Create_fresh_id)
  }
  {
    assume l: "loc \<in> set (m_locations ?s)"
    let ?s1 = "snd (RemoveLocation loc ?s)"
    note r = RemoveLocation_present [OF i l]
    show "fst (RemoveLocation loc ?s)" by (rule r(1))
    show "loc \<notin> set (m_locations ?s1)" by (rule r(2))
    have "GetID loc \<le> m_next_id ?s" using i l by (rule inv_ids_bounded)
    then show "GetID loc < GetID (fst (Create (GetAddress loc) ?s1))"
      by (simp add: Create_fresh_id [OF r(3)] r(4))
    fix k assume "k \<in> set (issued_ids cs BreakpointLocationList_ctor)"
    then have "k \<le> m_next_id ?s" using inv_ctor by (rule issued_ids_bounded [rotated])
    then show "k < GetID (fst (Create (GetAddress loc) ?s1))"
      by (simp add: Create_fresh_id [OF r(3)] r(4))
  }
qed

theorem location_ids_never_reused_witness:
  "loc1 \<in> set (m_locations (run_calls calls1 BreakpointLocationList_ctor)) \<and>
   issued_ids calls1 BreakpointLocationList_ctor = [1, 2] \<and>
   fst (RemoveLocation loc1 (run_calls calls1 BreakpointLocationList_ctor)) \<and>
   GetID (fst (Create (GetAddress loc1)
     (snd (RemoveLocation loc1 (run_calls calls1 BreakpointLocationList_ctor))))) = 3 \<and>
   m_address_to_location (run_calls calls1 BreakpointLocationList_ctor) 30 = None \<and>
   GetID (fst (Create 30 (run_calls calls1 BreakpointLocationList_ctor))) = 3"
proof -
  have r: "run_calls calls1 BreakpointLocationList_ctor =
    \<lparr>m_locations = [\<lparr>GetID = 1, GetAddress = 10\<rparr>, \<lparr>GetID = 2, GetAddress = 20\<rparr>],
     m_address_to_location = [10 \<mapsto> \<lparr>GetID = 1, GetAddress = 10\<rparr>,
                               20 \<mapsto> \<lparr>GetID = 2, GetAddress = 20\<rparr>],
     m_next_id = 2\<rparr>"
    by (simp add: calls1_def BreakpointLocationList_ctor_def Create_def AddLocation_def
        FindByAddress_def Let_def)
  have l: "loc1 \<in> set (m_locations (run_calls calls1 BreakpointLocationList_ctor))"
    by (simp add: r loc1_def)
  have n: "m_address_to_location (run_calls calls1 BreakpointLocationList_ctor) 30 = None"
    by (simp add: r)
  have ids: "issued_ids calls1 BreakpointLocationList_ctor = [1, 2]"
    by (simp add: calls1_def BreakpointLocationList_ctor_def Create_def AddLocation_def
        FindByAddress_def Let_def)
  have c1: "GetID (fst (Create (GetAddress loc1)
     (snd (RemoveLocation loc1 (run_calls calls1 BreakpointLocationList_ctor))))) = 3"
    by (simp add: r loc1_def RemoveLocation_def Create_def AddLocation_def FindByAddress_def Let_def)
  have c2: "GetID (fst (Create 30 (run_calls calls1 BreakpointLocationList_ctor))) = 3"
    by (simp add: r Create_def AddLocation_def FindByAddress_def Let_def)
  show ?thesis
    using location_ids_never_reused [of calls1 30 loc1] l n ids c1 c2 by simp
qed

end
